theory Spec2Isabelle
  imports Main
begin

section \<open>Data model of the command bus (src/command-bus.ts, lines 6-42)\<close>

text \<open>
  Handlers, plugins and hooks are JavaScript function values. The bus stores them in a
  \<open>Map\<close> and in two arrays and compares them by identity (\<open>indexOf\<close>), so a function
  value is modelled by its identity, a \<open>fid\<close>, and what the function does when called is
  looked up in a table of bodies (\<open>code\<close> below). A body is a state transformer over the
  \<open>world\<close>: the three containers of the bus, the diagnostic console and everything else
  client code can reach (\<open>user\<close>). A body may therefore call \<open>register\<close>, \<open>use\<close>,
  \<open>onAfter\<close> or one of the returned unsubscribe closures while a dispatch is running.
  A \<open>throw\<close> is the left summand of the outcome.

  Values of type \<open>any\<close> are the type parameter \<open>'v\<close>. The Result that the chain
  returns is one object: every hook is handed that same object and dispatch returns it, so
  a hook that assigns to its fields changes what the later hooks and the caller see. A
  hook body therefore returns, next to its outcome and the world, the content it leaves in
  the Result object. A plugin returns the Result it hands up, which covers a plugin that
  edits the object it got from \<open>next()\<close>. The Command is passed as a value: client code
  that assigns to the fields of the Command in place is outside what this model
  represents. Bodies are total functions: client code that does not return is not
  represented either, except through the hook loop, which iterates over a list that the
  hooks themselves may grow.
\<close>

type_synonym fid = nat

datatype 'v failure = Error string | Raised 'v

record 'v command =
  action :: string
  target :: 'v
  payload :: "'v option"

record 'v command_result =
  ok :: bool
  val :: "'v option"
  error :: "'v failure option"

record ('v, 'u) world =
  handlers :: "string \<rightharpoonup> fid"
  plugins :: "fid list"
  afterHooks :: "fid list"
  console :: "(string \<times> 'v failure) list"
  user :: 'u

type_synonym ('v, 'u) step =
  "('v, 'u) world \<Rightarrow> ('v failure + 'v command_result) \<times> ('v, 'u) world"

type_synonym ('v, 'u) handler =
  "'v command \<Rightarrow> ('v, 'u) world \<Rightarrow> ('v failure + 'v) \<times> ('v, 'u) world"

type_synonym ('v, 'u) plugin =
  "'v command \<Rightarrow> ('v, 'u) step \<Rightarrow> ('v, 'u) step"

type_synonym ('v, 'u) hook =
  "'v command \<Rightarrow> 'v command_result \<Rightarrow> ('v, 'u) world
     \<Rightarrow> ('v failure + unit) \<times> 'v command_result \<times> ('v, 'u) world"

record ('v, 'u) code =
  handler_body :: "fid \<Rightarrow> ('v, 'u) handler"
  plugin_body :: "fid \<Rightarrow> ('v, 'u) plugin"
  hook_body :: "fid \<Rightarrow> ('v, 'u) hook"

section \<open>createCommandBus (lines 39-103)\<close>

text \<open>The fresh bus of \<open>createCommandBus\<close>: an empty Map and two empty arrays.\<close>

definition createCommandBus :: "'u \<Rightarrow> ('v, 'u) world" where
  "createCommandBus u =
     \<lparr>handlers = Map.empty, plugins = [], afterHooks = [], console = [], user = u\<rparr>"

subsection \<open>dispatch (lines 44-79)\<close>

text \<open>
  \<open>execute\<close> (lines 49-59). The handler was read from the Map before \<open>execute\<close> was
  built and is a captured constant; the message uses the \<open>action\<close> parameter of dispatch.
\<close>

definition execute ::
  "(fid \<Rightarrow> ('v, 'u) handler) \<Rightarrow> string \<Rightarrow> 'v command \<Rightarrow> fid option \<Rightarrow> ('v, 'u) step" where
  "execute H act cmd handler w =
     (case handler of
        None \<Rightarrow>
          (Inr \<lparr>ok = False, val = None, error = Some (Error (''No handler: '' @ act))\<rparr>, w)
      | Some h \<Rightarrow>
          (case H h cmd w of
             (Inr v, w') \<Rightarrow> (Inr \<lparr>ok = True, val = Some v, error = None\<rparr>, w')
           | (Inl e, w') \<Rightarrow> (Inr \<lparr>ok = False, val = None, error = Some e\<rparr>, w')))"

text \<open>
  \<open>Array.prototype.reduceRight\<close> with an initial value: the accumulator starts at
  \<open>init\<close> and the elements are visited from the last to the first.
\<close>

definition reduceRight :: "('b \<Rightarrow> 'a \<Rightarrow> 'b) \<Rightarrow> 'a list \<Rightarrow> 'b \<Rightarrow> 'b" where
  "reduceRight f xs init = foldl f init (rev xs)"

text \<open>
  Lines 62-65: \<open>plugins.reduceRight((next, plugin) => () => plugin(cmd, next), execute)\<close>.
  The callback only builds closures; no plugin runs while the chain is built.
\<close>

definition chain ::
  "(fid \<Rightarrow> ('v, 'u) plugin) \<Rightarrow> 'v command \<Rightarrow> fid list \<Rightarrow> ('v, 'u) step \<Rightarrow> ('v, 'u) step" where
  "chain P cmd ps exec = reduceRight (\<lambda>next plugin. P plugin cmd next) ps exec"

text \<open>\<open>console.error('[vapor-chamber] Hook error:', e)\<close> (line 74).\<close>

definition console_error :: "'v failure \<Rightarrow> ('v, 'u) world \<Rightarrow> ('v, 'u) world" where
  "console_error e w = w\<lparr>console := console w @ [(''[vapor-chamber] Hook error:'', e)]\<rparr>"

text \<open>
  The body of the hook loop (lines 71-75): call the hook with the Command and the Result
  object, catch and report a throw. What the hook assigned to the Result object stays
  assigned, also when the hook throws afterwards.
\<close>

definition call_hook ::
  "(fid \<Rightarrow> ('v, 'u) hook) \<Rightarrow> 'v command \<Rightarrow> 'v command_result \<Rightarrow> fid \<Rightarrow> ('v, 'u) world
     \<Rightarrow> 'v command_result \<times> ('v, 'u) world" where
  "call_hook K cmd result hook w =
     (case K hook cmd result w of
        (Inr u, result', w') \<Rightarrow> (result', w')
      | (Inl e, result', w') \<Rightarrow> (result', console_error e w'))"

text \<open>
  \<open>for (const hook of afterHooks)\<close> (line 70) uses the array iterator: it keeps an index,
  and at every step compares it with the current length of the array and reads the
  current element at that index. The array is the live one, so a hook that pushes to it or
  splices it changes what the loop visits next, and a loop whose hooks keep pushing never
  ends: \<open>None\<close> is the dispatch that does not return. The loop returns the content of the
  Result object after the last hook, and the world.
\<close>

partial_function (option) run_hooks ::
  "(fid \<Rightarrow> ('v, 'u) hook) \<Rightarrow> 'v command \<Rightarrow> 'v command_result \<Rightarrow> nat \<Rightarrow> ('v, 'u) world
     \<Rightarrow> ('v command_result \<times> ('v, 'u) world) option" where
  "run_hooks K cmd result i w =
     (if i < length (afterHooks w)
      then (case call_hook K cmd result (afterHooks w ! i) w of
              (result', w') \<Rightarrow> run_hooks K cmd result' (Suc i) w')
      else Some (result, w))"

text \<open>
  Lines 45-67 of dispatch: build the Command, read the handler, build the chain from the
  plugins array as it is now, and call it. A plugin that throws makes \<open>chain()\<close> throw.
\<close>

definition dispatch_chain ::
  "('v, 'u) code \<Rightarrow> string \<Rightarrow> 'v \<Rightarrow> 'v option \<Rightarrow> ('v, 'u) step" where
  "dispatch_chain C act tgt pl w =
     (let cmd = \<lparr>action = act, target = tgt, payload = pl\<rparr>;
          handler = handlers w act
      in chain (plugin_body C) cmd (plugins w) (execute (handler_body C) act cmd handler) w)"

text \<open>
  Lines 67-78 of dispatch, given what \<open>chain()\<close> did. An exception of the chain leaves
  dispatch at line 67, before the hook loop; otherwise the hook loop runs from index 0 on
  the Result object of the chain, and that object is returned (line 78) with the content
  the hooks left in it.
\<close>

definition after_hooks ::
  "(fid \<Rightarrow> ('v, 'u) hook) \<Rightarrow> 'v command
     \<Rightarrow> ('v failure + 'v command_result) \<times> ('v, 'u) world
     \<Rightarrow> (('v failure + 'v command_result) \<times> ('v, 'u) world) option" where
  "after_hooks K cmd chained =
     (case chained of
        (Inl e, w1) \<Rightarrow> Some (Inl e, w1)
      | (Inr result, w1) \<Rightarrow>
          (case run_hooks K cmd result 0 w1 of
             None \<Rightarrow> None
           | Some (result', w2) \<Rightarrow> Some (Inr result', w2)))"

text \<open>dispatch (lines 44-79).\<close>

definition dispatch ::
  "('v, 'u) code \<Rightarrow> string \<Rightarrow> 'v \<Rightarrow> 'v option \<Rightarrow> ('v, 'u) world
     \<Rightarrow> (('v failure + 'v command_result) \<times> ('v, 'u) world) option" where
  "dispatch C act tgt pl w =
     after_hooks (hook_body C) \<lparr>action = act, target = tgt, payload = pl\<rparr>
       (dispatch_chain C act tgt pl w)"

subsection \<open>register, use, onAfter (lines 81-100)\<close>

text \<open>
  Each returns the closure it hands back to the caller, paired with the new world; the
  closure is a world transformer. \<open>indexOf\<close> returns the first position of an element, or -1;
  \<open>splice(i, 1)\<close> removes the element at position \<open>i\<close>.
\<close>

definition unregister :: "string \<Rightarrow> ('v, 'u) world \<Rightarrow> ('v, 'u) world" where
  "unregister act w = w\<lparr>handlers := (handlers w)(act := None)\<rparr>"

definition register ::
  "string \<Rightarrow> fid \<Rightarrow> ('v, 'u) world \<Rightarrow> (('v, 'u) world \<Rightarrow> ('v, 'u) world) \<times> ('v, 'u) world" where
  "register act handler w = (unregister act, w\<lparr>handlers := (handlers w)(act \<mapsto> handler)\<rparr>)"

fun indexOf :: "'a list \<Rightarrow> 'a \<Rightarrow> int" where
  "indexOf [] x = - 1"
| "indexOf (y # ys) x =
     (if y = x then 0 else (let i = indexOf ys x in if i = - 1 then - 1 else i + 1))"

definition splice1 :: "'a list \<Rightarrow> int \<Rightarrow> 'a list" where
  "splice1 xs i = take (nat i) xs @ drop (Suc (nat i)) xs"

definition unsubscribe :: "'a \<Rightarrow> 'a list \<Rightarrow> 'a list" where
  "unsubscribe x xs = (let i = indexOf xs x in if i \<noteq> - 1 then splice1 xs i else xs)"

definition unuse :: "fid \<Rightarrow> ('v, 'u) world \<Rightarrow> ('v, 'u) world" where
  "unuse plugin w = w\<lparr>plugins := unsubscribe plugin (plugins w)\<rparr>"

definition use ::
  "fid \<Rightarrow> ('v, 'u) world \<Rightarrow> (('v, 'u) world \<Rightarrow> ('v, 'u) world) \<times> ('v, 'u) world" where
  "use plugin w = (unuse plugin, w\<lparr>plugins := plugins w @ [plugin]\<rparr>)"

definition offAfter :: "fid \<Rightarrow> ('v, 'u) world \<Rightarrow> ('v, 'u) world" where
  "offAfter hook w = w\<lparr>afterHooks := unsubscribe hook (afterHooks w)\<rparr>"

definition onAfter ::
  "fid \<Rightarrow> ('v, 'u) world \<Rightarrow> (('v, 'u) world \<Rightarrow> ('v, 'u) world) \<times> ('v, 'u) world" where
  "onAfter hook w = (offAfter hook, w\<lparr>afterHooks := afterHooks w @ [hook]\<rparr>)"

section \<open>Client code\<close>

text \<open>
  The shape of the plugins of tests/command-bus.test.ts (lines 79-84 and 117-129) and of
  \<open>analyticsPlugin\<close> in examples/custom-plugins.ts: do something, call \<open>next()\<close> once, do
  something with the result, return the result of \<open>next()\<close> as it is. If \<open>next()\<close> throws,
  the exception passes through and the second part does not run. Both parts are arbitrary
  world transformers, so they may register and unsubscribe handlers, plugins and hooks.
\<close>

definition around ::
  "('v command \<Rightarrow> ('v, 'u) world \<Rightarrow> ('v, 'u) world)
   \<Rightarrow> ('v command \<Rightarrow> 'v command_result \<Rightarrow> ('v, 'u) world \<Rightarrow> ('v, 'u) world)
   \<Rightarrow> ('v, 'u) plugin" where
  "around before after cmd next w =
     (case next (before cmd w) of
        (Inl e, w') \<Rightarrow> (Inl e, w')
      | (Inr result, w') \<Rightarrow> (Inr result, after cmd result w'))"

text \<open>
  Plugins that do not interfere in this dispatch: run from the world \<open>w\<close> with the inner
  step \<open>inner\<close>, each plugin of \<open>ps\<close> does what a plugin of the shape \<open>around\<close> does with
  the continuation it is given here, in the world it is entered in here. Nothing is asked
  of the plugin for other commands, other worlds or other continuations.
\<close>

fun passes ::
  "(fid \<Rightarrow> ('v, 'u) plugin) \<Rightarrow> 'v command \<Rightarrow> ('v, 'u) step \<Rightarrow> fid list
   \<Rightarrow> (('v command \<Rightarrow> ('v, 'u) world \<Rightarrow> ('v, 'u) world)
        \<times> ('v command \<Rightarrow> 'v command_result \<Rightarrow> ('v, 'u) world \<Rightarrow> ('v, 'u) world)) list
   \<Rightarrow> ('v, 'u) world \<Rightarrow> bool" where
  "passes P cmd inner [] [] w = True"
| "passes P cmd inner (p # ps) ((before, after) # bas) w =
     (P p cmd (chain P cmd ps inner) w = around before after cmd (chain P cmd ps inner) w
      \<and> passes P cmd inner ps bas (before cmd w))"
| "passes P cmd inner [] (ba # bas) w = False"
| "passes P cmd inner (p # ps) [] w = False"

text \<open>
  Calling the hooks of a list one after the other, each on the Result content and the
  world the previous one left.
\<close>

definition call_hooks ::
  "(fid \<Rightarrow> ('v, 'u) hook) \<Rightarrow> 'v command \<Rightarrow> fid list
     \<Rightarrow> 'v command_result \<times> ('v, 'u) world \<Rightarrow> 'v command_result \<times> ('v, 'u) world" where
  "call_hooks K cmd hs rw = fold (\<lambda>h rw. call_hook K cmd (fst rw) h (snd rw)) hs rw"

text \<open>
  No hook changes the hook array while the hook loop runs: in the run that starts from
  the Result content and the world \<open>rw\<close>, each hook of \<open>hs\<close>, when it is called, leaves the
  array as it found it. Nothing is asked of the hooks in other runs.
\<close>

fun hooks_quiet ::
  "(fid \<Rightarrow> ('v, 'u) hook) \<Rightarrow> 'v command \<Rightarrow> fid list
     \<Rightarrow> 'v command_result \<times> ('v, 'u) world \<Rightarrow> bool" where
  "hooks_quiet K cmd [] rw = True"
| "hooks_quiet K cmd (h # hs) rw =
     (afterHooks (snd (call_hook K cmd (fst rw) h (snd rw))) = afterHooks (snd rw)
      \<and> hooks_quiet K cmd hs (call_hook K cmd (fst rw) h (snd rw)))"

text \<open>
  No hook assigns to the Result object in that run: each hook of \<open>hs\<close>, when it is called,
  leaves the content of the Result as it found it.
\<close>

fun hooks_observe ::
  "(fid \<Rightarrow> ('v, 'u) hook) \<Rightarrow> 'v command \<Rightarrow> fid list
     \<Rightarrow> 'v command_result \<times> ('v, 'u) world \<Rightarrow> bool" where
  "hooks_observe K cmd [] rw = True"
| "hooks_observe K cmd (h # hs) rw =
     (fst (call_hook K cmd (fst rw) h (snd rw)) = fst rw
      \<and> hooks_observe K cmd hs (call_hook K cmd (fst rw) h (snd rw)))"

text \<open>
  The client code of the tests, with the \<open>order\<close> array of markers as the user state.
  Handler 10 pushes \<open>handler\<close> and returns \<open>done\<close>, handler 11 throws, handler 12 registers
  hook 21 and returns, handler 13 unsubscribes hook 21 and returns. Plugins 1 and 2 push a
  marker before and after \<open>next()\<close>; plugin 3 returns a failing Result without calling
  \<open>next()\<close>; plugins 4 to 9 change the bus and then call \<open>next()\<close>; plugin 30 calls \<open>next()\<close> and replaces a failing Result by a fallback
  value; plugin 31 is a guard that calls \<open>next()\<close> while nothing has been pushed and blocks
  afterwards. Hooks 20 and 21 push a marker, hook 22 throws, hooks 23 and 24 unsubscribe
  themselves when they run, hook 25 assigns \<open>result.ok = false\<close> and throws, hook 26
  registers itself once more, hook 27 assigns \<open>result.ok = true\<close>.
\<close>

definition push :: "string \<Rightarrow> ('v, string list) world \<Rightarrow> ('v, string list) world" where
  "push m w = w\<lparr>user := user w @ [m]\<rparr>"

definition test_handler :: "fid \<Rightarrow> (string, string list) handler" where
  "test_handler h cmd w =
     (if h = 10 then (Inr ''done'', push ''handler'' w)
      else if h = 11 then (Inl (Error ''Handler failed''), w)
      else if h = 12 then (Inr ''done'', snd (onAfter 21 w))
      else if h = 13 then (Inr ''done'', offAfter 21 w)
      else (Inr ''result'', w))"

definition test_plugin :: "fid \<Rightarrow> (string, string list) plugin" where
  "test_plugin p =
     (if p = 1 then around (\<lambda>cmd. push ''plugin1-before'') (\<lambda>cmd r. push ''plugin1-after'')
      else if p = 2 then around (\<lambda>cmd. push ''plugin2-before'') (\<lambda>cmd r. push ''plugin2-after'')
      else if p = 3 then
        (\<lambda>cmd next w. (Inr \<lparr>ok = False, val = None, error = Some (Error ''Blocked'')\<rparr>, w))
      else if p = 4 then (\<lambda>cmd next w. next (snd (use 1 w)))
      else if p = 5 then (\<lambda>cmd next w. next (unuse 2 w))
      else if p = 6 then (\<lambda>cmd next w. next (unregister (action cmd) w))
      else if p = 7 then (\<lambda>cmd next w. next (snd (register (action cmd) 10 w)))
      else if p = 8 then (\<lambda>cmd next w. next (snd (onAfter 21 w)))
      else if p = 9 then (\<lambda>cmd next w. next (offAfter 20 w))
      else if p = 30 then
        (\<lambda>cmd next w.
           case next w of
             (Inl e, w') \<Rightarrow> (Inl e, w')
           | (Inr r, w') \<Rightarrow>
               (if ok r then (Inr r, w')
                else (Inr \<lparr>ok = True, val = Some ''fallback'', error = None\<rparr>, w')))
      else if p = 31 then
        (\<lambda>cmd next w.
           if user w = [] then next w
           else (Inr \<lparr>ok = False, val = None, error = Some (Error ''Blocked'')\<rparr>, w))
      else (\<lambda>cmd next. next))"

definition test_hook :: "fid \<Rightarrow> (string, string list) hook" where
  "test_hook h cmd r w =
     (if h = 20 then (Inr (), r, push ''hook'' w)
      else if h = 21 then (Inr (), r, push ''hook2'' w)
      else if h = 22 then (Inl (Error ''Hook error''), r, w)
      else if h = 23 then (Inl (Error ''once''), r, offAfter 23 w)
      else if h = 24 then (Inr (), r, offAfter 24 w)
      else if h = 25 then (Inl (Error ''Hook error''), r\<lparr>ok := False\<rparr>, w)
      else if h = 26 then (Inr (), r, snd (onAfter 26 w))
      else if h = 27 then (Inr (), r\<lparr>ok := True\<rparr>, w)
      else (Inr (), r, w))"

definition test_code :: "(string, string list) code" where
  "test_code = \<lparr>handler_body = test_handler, plugin_body = test_plugin, hook_body = test_hook\<rparr>"

text \<open>A bus with the given handler for \<open>test.action\<close>, plugins and hooks, nothing logged.\<close>

definition test_bus :: "fid option \<Rightarrow> fid list \<Rightarrow> fid list \<Rightarrow> (string, string list) world" where
  "test_bus h ps hs =
     \<lparr>handlers = Map.empty(''test.action'' := h), plugins = ps, afterHooks = hs,
      console = [], user = []\<rparr>"

definition test_cmd :: "string command" where
  "test_cmd = \<lparr>action = ''test.action'', target = ''target'', payload = None\<rparr>"

section \<open>Properties of the building blocks\<close>

lemma chain_Nil: "chain P cmd [] exec = exec"
  by (simp add: chain_def reduceRight_def)

lemma chain_Cons: "chain P cmd (p # ps) exec = P p cmd (chain P cmd ps exec)"
  by (simp add: chain_def reduceRight_def)

lemma chain_append: "chain P cmd (ps @ qs) exec = chain P cmd ps (chain P cmd qs exec)"
  by (induction ps) (simp_all add: chain_Nil chain_Cons)


text \<open>Plugins that do not interfere in this run: first parts in order, the inner step,
  second parts in reverse order, and the inner Result handed up unchanged.\<close>

lemma chain_passes:
  "passes P cmd inner ps bas w \<Longrightarrow>
   chain P cmd ps inner w =
     (case inner (fold (\<lambda>(before, after). before cmd) bas w) of
        (Inl e, w') \<Rightarrow> (Inl e, w')
      | (Inr r, w') \<Rightarrow> (Inr r, fold (\<lambda>(before, after). after cmd r) (rev bas) w'))"
proof (induction P cmd inner ps bas w rule: passes.induct)
  case (1 P cmd inner w)
  show ?case by (simp add: chain_Nil split: prod.splits sum.splits)
next
  case (2 P cmd inner p ps before after bas w)
  then have here: "P p cmd (chain P cmd ps inner) w =
      around before after cmd (chain P cmd ps inner) w"
    and rest: "passes P cmd inner ps bas (before cmd w)"
    by simp_all
  show ?case
    by (simp add: chain_Cons here around_def "2.IH" [OF rest] split: prod.splits sum.splits)
next
  case (3 P cmd inner ba bas w)
  then show ?case by simp
next
  case (4 P cmd inner p ps w)
  then show ?case by simp
qed

lemma call_hooks_Nil: "call_hooks K cmd [] rw = rw"
  by (simp add: call_hooks_def)

lemma call_hooks_Cons:
  "call_hooks K cmd (h # hs) rw = call_hooks K cmd hs (call_hook K cmd (fst rw) h (snd rw))"
  by (simp add: call_hooks_def)

lemma call_hooks_append:
  "call_hooks K cmd (xs @ ys) rw = call_hooks K cmd ys (call_hooks K cmd xs rw)"
  by (simp add: call_hooks_def)

lemma call_hook_cong: "K' h = K h \<Longrightarrow> call_hook K' cmd r h w = call_hook K cmd r h w"
  by (simp add: call_hook_def)

lemma call_hooks_cong:
  "(\<And>h. h \<in> set hs \<Longrightarrow> K' h = K h) \<Longrightarrow> call_hooks K' cmd hs rw = call_hooks K cmd hs rw"
proof (induction hs arbitrary: rw)
  case Nil
  show ?case by (simp add: call_hooks_Nil)
next
  case (Cons h hs)
  have "call_hook K' cmd (fst rw) h (snd rw) = call_hook K cmd (fst rw) h (snd rw)"
    by (rule call_hook_cong) (simp add: Cons.prems)
  moreover have "call_hooks K' cmd hs rw' = call_hooks K cmd hs rw'" for rw'
    by (rule Cons.IH) (simp add: Cons.prems)
  ultimately show ?case by (simp add: call_hooks_Cons)
qed

lemma hooks_quiet_cong:
  "(\<And>h. h \<in> set hs \<Longrightarrow> K' h = K h) \<Longrightarrow> hooks_quiet K' cmd hs rw = hooks_quiet K cmd hs rw"
proof (induction hs arbitrary: rw)
  case Nil
  show ?case by simp
next
  case (Cons h hs)
  have "call_hook K' cmd (fst rw) h (snd rw) = call_hook K cmd (fst rw) h (snd rw)"
    by (rule call_hook_cong) (simp add: Cons.prems)
  moreover have "hooks_quiet K' cmd hs rw' = hooks_quiet K cmd hs rw'" for rw'
    by (rule Cons.IH) (simp add: Cons.prems)
  ultimately show ?case by simp
qed

lemma hooks_observe_fst:
  "hooks_observe K cmd hs rw \<Longrightarrow> fst (call_hooks K cmd hs rw) = fst rw"
  by (induction hs arbitrary: rw) (simp_all add: call_hooks_Nil call_hooks_Cons)

text \<open>When no hook changes the array in this run, the loop ends and has called the hooks
  from index \<open>i\<close> on, each once, in the order of the array.\<close>

lemma run_hooks_quiet:
  "hooks_quiet K cmd (drop i (afterHooks w)) (r, w) \<Longrightarrow>
   run_hooks K cmd r i w = Some (call_hooks K cmd (drop i (afterHooks w)) (r, w))"
proof (induction "length (afterHooks w) - i" arbitrary: i r w)
  case 0
  then show ?case by (subst run_hooks.simps) (simp add: call_hooks_Nil)
next
  case (Suc n)
  let ?h = "afterHooks w ! i"
  obtain r' w' where c: "call_hook K cmd r ?h w = (r', w')"
    by (cases "call_hook K cmd r ?h w")
  from Suc.hyps(2) have lt: "i < length (afterHooks w)" by simp
  then have d: "drop i (afterHooks w) = ?h # drop (Suc i) (afterHooks w)"
    by (simp add: Cons_nth_drop_Suc)
  from Suc.prems d c have same: "afterHooks w' = afterHooks w"
    and rest: "hooks_quiet K cmd (drop (Suc i) (afterHooks w)) (r', w')"
    by simp_all
  have n: "n = length (afterHooks w') - Suc i" using Suc.hyps(2) same by simp
  have q: "hooks_quiet K cmd (drop (Suc i) (afterHooks w')) (r', w')"
    using rest same by simp
  have "run_hooks K cmd r i w = run_hooks K cmd r' (Suc i) w'"
    using lt c by (subst run_hooks.simps) simp
  also have "\<dots> = Some (call_hooks K cmd (drop (Suc i) (afterHooks w')) (r', w'))"
    by (rule Suc.hyps(1) [OF n q])
  also have "\<dots> = Some (call_hooks K cmd (drop i (afterHooks w)) (r, w))"
    by (simp add: same d call_hooks_Cons c)
  finally show ?case .
qed

lemma run_hooks_Nil: "afterHooks w = [] \<Longrightarrow> run_hooks K cmd r 0 w = Some (r, w)"
  by (subst run_hooks.simps) simp

lemma unsubscribe_remove1: "unsubscribe x xs = remove1 x xs"
proof -
  have neg: "\<And>ys. indexOf ys x = - 1 \<longleftrightarrow> x \<notin> set ys"
  proof -
    fix ys show "indexOf ys x = - 1 \<longleftrightarrow> x \<notin> set ys"
    proof (induction ys)
      case Nil show ?case by simp
    next
      case (Cons y ys)
      have "0 \<le> indexOf ys x \<or> indexOf ys x = - 1"
        by (induction ys) (auto simp: Let_def)
      with Cons show ?case by (auto simp: Let_def)
    qed
  qed
  have pos: "\<And>ys. x \<in> set ys \<Longrightarrow>
      0 \<le> indexOf ys x \<and> take (nat (indexOf ys x)) ys @ drop (Suc (nat (indexOf ys x))) ys = remove1 x ys"
  proof -
    fix ys show "x \<in> set ys \<Longrightarrow>
      0 \<le> indexOf ys x \<and> take (nat (indexOf ys x)) ys @ drop (Suc (nat (indexOf ys x))) ys = remove1 x ys"
    proof (induction ys)
      case Nil then show ?case by simp
    next
      case (Cons y ys)
      show ?case
      proof (cases "y = x")
        case True then show ?thesis by simp
      next
        case False
        with Cons.prems have mem: "x \<in> set ys" by simp
        from Cons.IH [OF mem] have ih: "0 \<le> indexOf ys x"
          "take (nat (indexOf ys x)) ys @ drop (Suc (nat (indexOf ys x))) ys = remove1 x ys"
          by simp_all
        from mem neg have ne: "indexOf ys x \<noteq> - 1" by simp
        have "nat (indexOf ys x + 1) = Suc (nat (indexOf ys x))" using ih(1) by simp
        with False ne ih show ?thesis by (simp add: Let_def)
      qed
    qed
  qed
  show ?thesis
  proof (cases "x \<in> set xs")
    case True
    with neg pos show ?thesis by (simp add: unsubscribe_def splice1_def Let_def)
  next
    case False
    with neg show ?thesis by (simp add: unsubscribe_def Let_def remove1_idem)
  qed
qed

lemma dispatch_chain_eq:
  "cmd = \<lparr>action = act, target = tgt, payload = pl\<rparr> \<Longrightarrow>
   dispatch_chain C act tgt pl w =
     chain (plugin_body C) cmd (plugins w) (execute (handler_body C) act cmd (handlers w act)) w"
  by (simp add: dispatch_chain_def Let_def)

lemma dispatch_passes:
  assumes ps: "passes (plugin_body C) cmd (execute (handler_body C) act cmd (handlers w act))
                 (plugins w) bas w"
    and cmd: "cmd = \<lparr>action = act, target = tgt, payload = pl\<rparr>"
    and ex: "execute (handler_body C) act cmd (handlers w act)
               (fold (\<lambda>(before, after). before cmd) bas w) = (Inr r, wh)"
  shows "dispatch_chain C act tgt pl w = (Inr r, fold (\<lambda>(before, after). after cmd r) (rev bas) wh)"
  using ex by (simp add: dispatch_chain_eq [OF cmd] chain_passes [OF ps])

text \<open>What dispatch returns once the chain has returned a Result: what the hook loop
  leaves, when it ends; and never an exception.\<close>

lemma dispatch_ends:
  assumes "dispatch_chain C act tgt pl w = (Inr r, w1)"
    and "cmd = \<lparr>action = act, target = tgt, payload = pl\<rparr>"
    and "run_hooks (hook_body C) cmd r 0 w1 = Some (r', w2)"
  shows "dispatch C act tgt pl w = Some (Inr r', w2)"
  using assms by (simp add: dispatch_def after_hooks_def)

lemma dispatch_quiet:
  assumes ch: "dispatch_chain C act tgt pl w = (Inr r, w1)"
    and cmd: "cmd = \<lparr>action = act, target = tgt, payload = pl\<rparr>"
    and quiet: "hooks_quiet (hook_body C) cmd (afterHooks w1) (r, w1)"
  shows "dispatch C act tgt pl w =
           Some (Inr (fst (call_hooks (hook_body C) cmd (afterHooks w1) (r, w1))),
                 snd (call_hooks (hook_body C) cmd (afterHooks w1) (r, w1)))"
proof -
  from quiet have "run_hooks (hook_body C) cmd r 0 w1 =
      Some (call_hooks (hook_body C) cmd (afterHooks w1) (r, w1))"
    using run_hooks_quiet [of "hook_body C" cmd 0 w1 r] by simp
  then have "run_hooks (hook_body C) cmd r 0 w1 =
      Some (fst (call_hooks (hook_body C) cmd (afterHooks w1) (r, w1)),
            snd (call_hooks (hook_body C) cmd (afterHooks w1) (r, w1)))"
    by simp
  from dispatch_ends [OF ch cmd this] show ?thesis .
qed

lemma dispatch_no_throw:
  assumes "dispatch_chain C act tgt pl w = (Inr r, w1)"
  shows "dispatch C act tgt pl w \<noteq> Some (Inl e, v)"
  using assms by (auto simp: dispatch_def after_hooks_def split: option.splits)

text \<open>A loop in which every hook that is called registers one more hook does not end.\<close>

lemma run_hooks_grows:
  assumes run: "run_hooks K cmd r i w = Some y"
    and grow: "\<forall>h\<in>H. \<forall>x v. \<exists>h'\<in>H.
                 call_hook K cmd x h v = (x, v\<lparr>afterHooks := afterHooks v @ [h']\<rparr>)"
    and lt: "i < length (afterHooks w)"
    and sub: "set (afterHooks w) \<subseteq> H"
  shows False
  using run grow lt sub
proof (induction K cmd r i w y rule: run_hooks.raw_induct [rotated 1, consumes 1])
  case (1 run K cmd r i w y)
  let ?h = "afterHooks w ! i"
  from "1.prems"(2) have mem: "?h \<in> set (afterHooks w)" by simp
  with "1.prems"(3) have "?h \<in> H" by blast
  with "1.prems"(1) obtain h' where h': "h' \<in> H"
    and c: "call_hook K cmd r ?h w = (r, w\<lparr>afterHooks := afterHooks w @ [h']\<rparr>)"
    by blast
  let ?w = "w\<lparr>afterHooks := afterHooks w @ [h']\<rparr>"
  from "1.hyps" "1.prems"(2) c have run: "run K cmd r (Suc i) ?w = Some y" by simp
  have lt: "Suc i < length (afterHooks ?w)" using "1.prems"(2) by simp
  have sub: "set (afterHooks ?w) \<subseteq> H" using "1.prems"(3) h' by simp
  from "1.IH" [OF run "1.prems"(1) lt sub] show False .
qed

text \<open>Hook 26 registers itself again each time it runs: the loop over an array of
  entries of hook 26 does not end.\<close>

lemma test_hook_grows:
  assumes "afterHooks w \<noteq> []" and "set (afterHooks w) \<subseteq> {26}"
  shows "run_hooks test_hook cmd r 0 w = None"
proof (cases "run_hooks test_hook cmd r 0 w")
  case None
  then show ?thesis .
next
  case (Some y)
  have grow: "\<forall>h\<in>{26}. \<forall>x v. \<exists>h'\<in>{26}.
      call_hook test_hook cmd x h v = (x, v\<lparr>afterHooks := afterHooks v @ [h']\<rparr>)"
    by (simp add: call_hook_def test_hook_def onAfter_def)
  from assms(1) have "0 < length (afterHooks w)" by simp
  from run_hooks_grows [OF Some grow this assms(2)] show ?thesis ..
qed

lemma dispatch_observed:
  assumes ch: "dispatch_chain C act tgt pl w = (Inr r, w1)"
    and cmd: "cmd = \<lparr>action = act, target = tgt, payload = pl\<rparr>"
    and quiet: "hooks_quiet (hook_body C) cmd (afterHooks w1) (r, w1)"
    and obs: "hooks_observe (hook_body C) cmd (afterHooks w1) (r, w1)"
  shows "dispatch C act tgt pl w =
           Some (Inr r, snd (call_hooks (hook_body C) cmd (afterHooks w1) (r, w1)))"
  using dispatch_quiet [OF ch cmd quiet] hooks_observe_fst [OF obs] by simp


section \<open>The order of the plugin chain\<close>

text \<open>
  C1. On a bus whose plugins are P1 (registered first) and P2 (registered second) and
  whose action has the handler H, the chain that dispatch calls is P1 applied to the step
  "P2 applied to the innermost step", for any two plugin bodies. When both plugins have
  the shape "first part, \<open>next()\<close>, second part", the dispatch runs P1's first part, then
  P2's first part, then H, then P2's second part, then P1's second part, each on the world
  the previous one left, and both second parts receive the Result of H; the hooks follow.
\<close>

theorem dispatch_plugin_order:
  assumes ps: "plugins w = [p1, p2]"
    and h: "handlers w act = Some h"
    and cmd: "cmd = \<lparr>action = act, target = tgt, payload = pl\<rparr>"
    and p1: "plugin_body C p1 = around before1 after1"
    and p2: "plugin_body C p2 = around before2 after2"
    and hb: "handler_body C h cmd (before2 cmd (before1 cmd w)) = (out, wh)"
    and r: "r = (case out of
                   Inr v \<Rightarrow> \<lparr>ok = True, val = Some v, error = None\<rparr>
                 | Inl e \<Rightarrow> \<lparr>ok = False, val = None, error = Some e\<rparr>)"
  shows "dispatch_chain C act tgt pl w =
           plugin_body C p1 cmd
             (plugin_body C p2 cmd (execute (handler_body C) act cmd (Some h))) w
         \<and> dispatch_chain C act tgt pl w = (Inr r, after1 cmd r (after2 cmd r wh))
         \<and> dispatch C act tgt pl w =
             after_hooks (hook_body C) cmd (Inr r, after1 cmd r (after2 cmd r wh))"
proof -
  have nest: "dispatch_chain C act tgt pl w =
      plugin_body C p1 cmd (plugin_body C p2 cmd (execute (handler_body C) act cmd (Some h))) w"
    by (simp add: dispatch_chain_eq [OF cmd] ps h chain_Cons chain_Nil)
  have ex: "execute (handler_body C) act cmd (Some h) (before2 cmd (before1 cmd w)) = (Inr r, wh)"
    using hb r by (cases out) (simp_all add: execute_def)
  have run: "dispatch_chain C act tgt pl w = (Inr r, after1 cmd r (after2 cmd r wh))"
    using ex by (simp add: nest p1 p2 around_def)
  show ?thesis
    using nest run by (simp add: dispatch_def cmd)
qed

text \<open>The test "should execute plugins in order (first = outermost)", lines 113-145.\<close>

theorem dispatch_plugin_order_witness:
  "dispatch test_code ''test.action'' ''target'' None (test_bus (Some 10) [1, 2] []) =
     Some (Inr \<lparr>ok = True, val = Some ''done'', error = None\<rparr>,
           (test_bus (Some 10) [1, 2] [])
             \<lparr>user := [''plugin1-before'', ''plugin2-before'', ''handler'',
                       ''plugin2-after'', ''plugin1-after'']\<rparr>)"
proof -
  let ?w = "test_bus (Some 10) [1, 2] [] :: (string, string list) world"
  let ?wb = "push ''plugin2-before'' (push ''plugin1-before'' ?w)"
  have ps: "plugins ?w = [1, 2]" and h: "handlers ?w ''test.action'' = Some 10"
    by (simp_all add: test_bus_def)
  have p1: "plugin_body test_code 1 =
      around (\<lambda>cmd. push ''plugin1-before'') (\<lambda>cmd r. push ''plugin1-after'')"
    and p2: "plugin_body test_code 2 =
      around (\<lambda>cmd. push ''plugin2-before'') (\<lambda>cmd r. push ''plugin2-after'')"
    by (simp_all add: test_code_def test_plugin_def)
  have hb: "handler_body test_code 10 test_cmd ?wb = (Inr ''done'', push ''handler'' ?wb)"
    by (simp add: test_code_def test_handler_def)
  have r: "\<lparr>ok = True, val = Some ''done'', error = None\<rparr> =
      (case (Inr ''done'' :: string failure + string) of
         Inr v \<Rightarrow> \<lparr>ok = True, val = Some v, error = None\<rparr>
       | Inl e \<Rightarrow> \<lparr>ok = False, val = None, error = Some e\<rparr>)"
    by simp
  have cmd: "test_cmd = \<lparr>action = ''test.action'', target = ''target'', payload = None\<rparr>"
    by (simp add: test_cmd_def)
  from dispatch_plugin_order [OF ps h cmd p1 p2 hb r]
  show ?thesis
    by (simp add: after_hooks_def run_hooks_Nil push_def test_bus_def)
qed

section \<open>The handler registry\<close>

text \<open>
  C7. The closure that \<open>register\<close> returns deletes the key, whatever is bound to it when
  the closure is called. After \<open>register(action, h1)\<close> and then \<open>register(action, h2)\<close> the
  action is bound to \<open>h2\<close>; calling the closure returned by the first \<open>register\<close> leaves
  the action with no handler. In general the closure, called in any world, removes the
  binding of its action and leaves every other binding as it is.
\<close>

theorem register_closure_deletes_by_key:
  "handlers (snd (register act h2 (snd (register act h1 w)))) act = Some h2
   \<and> handlers (fst (register act h1 w) (snd (register act h2 (snd (register act h1 w))))) act = None
   \<and> handlers (fst (register act h w) w') = (handlers w')(act := None)"
  by (simp add: register_def unregister_def)

section \<open>The innermost step\<close>

text \<open>
  C2, as amended. The action has a registered handler and the plugins do not interfere in
  this dispatch: each does what a plugin of the shape "first part, \<open>next()\<close>, second part"
  does here and hands the Result of \<open>next()\<close> up as it is (no plugin at all is the case
  \<open>bas = []\<close>). The handler is called with the Command in the world the first parts left. If
  it returns the value \<open>v\<close>, the chain's Result is \<open>{ok: true, value: v}\<close>; if it throws \<open>e\<close>,
  the chain's Result is \<open>{ok: false, error: e}\<close>. Provided the hook loop ends and leaves the
  Result object with that content, dispatch returns it, as a normal return value (\<open>Inr\<close>);
  this is so in particular when, in this run, no hook changes the hook array and no hook
  assigns to the Result. Whatever the hooks do, dispatch does not throw.
\<close>

theorem dispatch_handler_result:
  assumes h: "handlers w act = Some h"
    and cmd: "cmd = \<lparr>action = act, target = tgt, payload = pl\<rparr>"
    and ps: "passes (plugin_body C) cmd (execute (handler_body C) act cmd (Some h))
               (plugins w) bas w"
    and hb: "handler_body C h cmd (fold (\<lambda>(before, after). before cmd) bas w) = (out, wh)"
    and r: "r = (case out of
                   Inr v \<Rightarrow> \<lparr>ok = True, val = Some v, error = None\<rparr>
                 | Inl e \<Rightarrow> \<lparr>ok = False, val = None, error = Some e\<rparr>)"
    and w1: "w1 = fold (\<lambda>(before, after). after cmd r) (rev bas) wh"
  shows "(\<forall>w2. run_hooks (hook_body C) cmd r 0 w1 = Some (r, w2) \<longrightarrow>
             dispatch C act tgt pl w = Some (Inr r, w2))
         \<and> (hooks_quiet (hook_body C) cmd (afterHooks w1) (r, w1)
              \<and> hooks_observe (hook_body C) cmd (afterHooks w1) (r, w1) \<longrightarrow>
             dispatch C act tgt pl w =
               Some (Inr r, snd (call_hooks (hook_body C) cmd (afterHooks w1) (r, w1))))
         \<and> (\<forall>e v. dispatch C act tgt pl w \<noteq> Some (Inl e, v))"
proof -
  have "execute (handler_body C) act cmd (handlers w act)
          (fold (\<lambda>(before, after). before cmd) bas w) = (Inr r, wh)"
    using hb r by (cases out) (simp_all add: execute_def h)
  from dispatch_passes [OF _ cmd this] ps h
  have ch: "dispatch_chain C act tgt pl w = (Inr r, w1)" by (simp add: w1)
  have one: "\<forall>w2. run_hooks (hook_body C) cmd r 0 w1 = Some (r, w2) \<longrightarrow>
      dispatch C act tgt pl w = Some (Inr r, w2)"
    using dispatch_ends [OF ch cmd] by blast
  have two: "hooks_quiet (hook_body C) cmd (afterHooks w1) (r, w1)
      \<and> hooks_observe (hook_body C) cmd (afterHooks w1) (r, w1) \<longrightarrow>
      dispatch C act tgt pl w =
        Some (Inr r, snd (call_hooks (hook_body C) cmd (afterHooks w1) (r, w1)))"
    using dispatch_observed [OF ch cmd] by blast
  have three: "\<forall>e v. dispatch C act tgt pl w \<noteq> Some (Inl e, v)"
    using dispatch_no_throw [OF ch] by blast
  show ?thesis
    by (intro conjI) (rule one, rule two, rule three)
qed

text \<open>The tests "should execute registered handler" and "should catch handler errors and
  return error result": the first with a plugin and a hook present, the second with a hook
  that unsubscribes itself when it runs.\<close>

theorem dispatch_handler_result_witness:
  "dispatch test_code ''test.action'' ''target'' None (test_bus (Some 10) [1] [20]) =
     Some (Inr \<lparr>ok = True, val = Some ''done'', error = None\<rparr>,
           (test_bus (Some 10) [1] [20])
             \<lparr>user := [''plugin1-before'', ''handler'', ''plugin1-after'', ''hook'']\<rparr>)
   \<and> dispatch test_code ''test.action'' ''target'' None (test_bus (Some 11) [] [24]) =
     Some (Inr \<lparr>ok = False, val = None, error = Some (Error ''Handler failed'')\<rparr>,
           test_bus (Some 11) [] [])"
proof -
  let ?w = "test_bus (Some 10) [1] [20] :: (string, string list) world"
  let ?bas = "[(\<lambda>cmd. push ''plugin1-before'', \<lambda>cmd r. push ''plugin1-after'')]
      :: ((string command \<Rightarrow> (string, string list) world \<Rightarrow> (string, string list) world)
          \<times> (string command \<Rightarrow> string command_result \<Rightarrow> (string, string list) world
               \<Rightarrow> (string, string list) world)) list"
  let ?none = "[]
      :: ((string command \<Rightarrow> (string, string list) world \<Rightarrow> (string, string list) world)
          \<times> (string command \<Rightarrow> string command_result \<Rightarrow> (string, string list) world
               \<Rightarrow> (string, string list) world)) list"
  let ?r = "\<lparr>ok = True, val = Some ''done'', error = None\<rparr> :: string command_result"
  let ?wh = "push ''handler'' (push ''plugin1-before'' ?w)"
  let ?w1 = "push ''plugin1-after'' ?wh"
  have cmd: "test_cmd = \<lparr>action = ''test.action'', target = ''target'', payload = None\<rparr>"
    by (simp add: test_cmd_def)
  have h: "handlers ?w ''test.action'' = Some 10" by (simp add: test_bus_def)
  have ps: "passes (plugin_body test_code) test_cmd
      (execute (handler_body test_code) ''test.action'' test_cmd (Some 10)) (plugins ?w) ?bas ?w"
    by (simp add: test_bus_def test_code_def test_plugin_def)
  have hb: "handler_body test_code 10 test_cmd
      (fold (\<lambda>(before, after). before test_cmd) ?bas ?w) = (Inr ''done'', ?wh)"
    by (simp add: test_code_def test_handler_def)
  have r: "?r = (case (Inr ''done'' :: string failure + string) of
         Inr v \<Rightarrow> \<lparr>ok = True, val = Some v, error = None\<rparr>
       | Inl e \<Rightarrow> \<lparr>ok = False, val = None, error = Some e\<rparr>)"
    by simp
  have w1: "?w1 = fold (\<lambda>(before, after). after test_cmd ?r) (rev ?bas) ?wh" by simp
  have quiet: "hooks_quiet (hook_body test_code) test_cmd (afterHooks ?w1) (?r, ?w1)
      \<and> hooks_observe (hook_body test_code) test_cmd (afterHooks ?w1) (?r, ?w1)"
    by (simp add: call_hook_def test_code_def test_hook_def push_def test_bus_def)
  from dispatch_handler_result [OF h cmd ps hb r w1, THEN conjunct2, THEN conjunct1, THEN mp,
      OF quiet]
  have a: "dispatch test_code ''test.action'' ''target'' None ?w =
      Some (Inr ?r, snd (call_hooks (hook_body test_code) test_cmd (afterHooks ?w1) (?r, ?w1)))" .
  have a': "snd (call_hooks (hook_body test_code) test_cmd (afterHooks ?w1) (?r, ?w1)) =
      ?w\<lparr>user := [''plugin1-before'', ''handler'', ''plugin1-after'', ''hook'']\<rparr>"
    by (simp add: call_hooks_def call_hook_def test_code_def test_hook_def push_def test_bus_def)
  let ?v = "test_bus (Some 11) [] [24] :: (string, string list) world"
  let ?v2 = "test_bus (Some 11) [] [] :: (string, string list) world"
  let ?e = "\<lparr>ok = False, val = None, error = Some (Error ''Handler failed'')\<rparr>
      :: string command_result"
  have h': "handlers ?v ''test.action'' = Some 11" by (simp add: test_bus_def)
  have ps': "passes (plugin_body test_code) test_cmd
      (execute (handler_body test_code) ''test.action'' test_cmd (Some 11)) (plugins ?v) ?none ?v"
    by (simp add: test_bus_def)
  have hb': "handler_body test_code 11 test_cmd
      (fold (\<lambda>(before, after). before test_cmd) ?none ?v) = (Inl (Error ''Handler failed''), ?v)"
    by (simp add: test_code_def test_handler_def)
  have r': "?e = (case (Inl (Error ''Handler failed'') :: string failure + string) of
         Inr v \<Rightarrow> \<lparr>ok = True, val = Some v, error = None\<rparr>
       | Inl e \<Rightarrow> \<lparr>ok = False, val = None, error = Some e\<rparr>)"
    by simp
  have w1': "?v = fold (\<lambda>(before, after). after test_cmd ?e) (rev ?none) ?v" by simp
  have ends: "run_hooks (hook_body test_code) test_cmd ?e 0 ?v = Some (?e, ?v2)"
    by (simp add: run_hooks.simps call_hook_def test_code_def test_hook_def test_bus_def
        offAfter_def unsubscribe_def splice1_def Let_def)
  from dispatch_handler_result [OF h' cmd ps' hb' r' w1', THEN conjunct1, THEN spec, THEN mp,
      OF ends]
  have b: "dispatch test_code ''test.action'' ''target'' None ?v = Some (Inr ?e, ?v2)" .
  show ?thesis
    unfolding a a' b by simp
qed

text \<open>
  C2 as stated, with no condition on the hooks, does not hold. Handler 10 returns
  \<open>done\<close> and hook 26 registers itself again each time it runs: the array grows as fast as
  the iterator advances and dispatch does not return. Handler 11 throws and hook 27
  assigns \<open>result.ok = true\<close>: dispatch returns \<open>{ok: true, error: e}\<close>, not
  \<open>{ok: false, error: e}\<close>.
\<close>

theorem dispatch_handler_result_counterexample:
  "dispatch test_code ''test.action'' ''target'' None (test_bus (Some 10) [] [26]) = None
   \<and> dispatch test_code ''test.action'' ''target'' None (test_bus (Some 11) [] [27]) =
     Some (Inr \<lparr>ok = True, val = None, error = Some (Error ''Handler failed'')\<rparr>,
           test_bus (Some 11) [] [27])"
proof
  let ?w = "test_bus (Some 10) [] [26] :: (string, string list) world"
  let ?r = "\<lparr>ok = True, val = Some ''done'', error = None\<rparr> :: string command_result"
  have ch: "dispatch_chain test_code ''test.action'' ''target'' None ?w =
      (Inr ?r, push ''handler'' ?w)"
    by (simp add: dispatch_chain_def chain_Nil execute_def test_bus_def test_code_def
        test_handler_def Let_def)
  have "run_hooks test_hook test_cmd ?r 0 (push ''handler'' ?w) = None"
    by (rule test_hook_grows) (simp_all add: push_def test_bus_def)
  then show "dispatch test_code ''test.action'' ''target'' None ?w = None"
    unfolding dispatch_def ch by (simp add: after_hooks_def test_code_def test_cmd_def)
next
  show "dispatch test_code ''test.action'' ''target'' None (test_bus (Some 11) [] [27]) =
     Some (Inr \<lparr>ok = True, val = None, error = Some (Error ''Handler failed'')\<rparr>,
           test_bus (Some 11) [] [27])"
    by (simp add: dispatch_def dispatch_chain_def chain_Nil execute_def after_hooks_def
        run_hooks.simps call_hook_def test_bus_def test_code_def test_handler_def test_hook_def
        Let_def)
qed




section \<open>Short-circuiting plugins\<close>




section \<open>What is fixed when a dispatch starts\<close>

text \<open>
  C8. The plugins that a dispatch runs are those of the plugins array at the moment the
  chain is built, in that order. Plugin \<open>p\<close>, anywhere in the array, changes the array in
  any way (\<open>edit\<close>: a \<open>use\<close>, which appends, or the closure returned by \<open>use\<close>, which
  removes the first occurrence) and then calls \<open>next()\<close>. The dispatch still runs the plugins
  registered before \<open>p\<close> around it and, after it, exactly the plugins that were registered
  after \<open>p\<close> when the dispatch started, then the innermost step; the edited array is in the
  world they run in and is what the next dispatch will read.
\<close>

theorem dispatch_plugin_snapshot:
  assumes ps: "plugins w = pre @ p # post"
    and cmd: "cmd = \<lparr>action = act, target = tgt, payload = pl\<rparr>"
    and p: "plugin_body C p cmd = (\<lambda>next w'. next (w'\<lparr>plugins := edit (plugins w')\<rparr>))"
  shows "dispatch_chain C act tgt pl w =
           chain (plugin_body C) cmd pre
             (\<lambda>w'. chain (plugin_body C) cmd post
                     (execute (handler_body C) act cmd (handlers w act))
                     (w'\<lparr>plugins := edit (plugins w')\<rparr>)) w
         \<and> dispatch C act tgt pl w =
             after_hooks (hook_body C) cmd
               (chain (plugin_body C) cmd pre
                 (\<lambda>w'. chain (plugin_body C) cmd post
                         (execute (handler_body C) act cmd (handlers w act))
                         (w'\<lparr>plugins := edit (plugins w')\<rparr>)) w)
         \<and> snd (use q w') = w'\<lparr>plugins := plugins w' @ [q]\<rparr>
         \<and> fst (use q w') w' = w'\<lparr>plugins := remove1 q (plugins w')\<rparr>"
proof -
  have one: "dispatch_chain C act tgt pl w =
      chain (plugin_body C) cmd pre
        (\<lambda>w'. chain (plugin_body C) cmd post
                (execute (handler_body C) act cmd (handlers w act))
                (w'\<lparr>plugins := edit (plugins w')\<rparr>)) w"
    by (simp add: dispatch_chain_eq [OF cmd] ps chain_append chain_Cons p)
  have two: "snd (use q w') = w'\<lparr>plugins := plugins w' @ [q]\<rparr>"
    by (simp add: use_def)
  have three: "fst (use q w') w' = w'\<lparr>plugins := remove1 q (plugins w')\<rparr>"
    by (simp add: use_def unuse_def unsubscribe_remove1)
  from one two three show ?thesis
    by (simp add: dispatch_def cmd)
qed

text \<open>Plugin 4 registers plugin 1 and plugin 5 unsubscribes plugin 2 before calling
  \<open>next()\<close>: plugin 1 does not run in this dispatch and plugin 2 still does.\<close>

theorem dispatch_plugin_snapshot_witness:
  "dispatch test_code ''test.action'' ''target'' None (test_bus (Some 10) [4, 2] []) =
     Some (Inr \<lparr>ok = True, val = Some ''done'', error = None\<rparr>,
           (test_bus (Some 10) [4, 2] [])
             \<lparr>plugins := [4, 2, 1],
              user := [''plugin2-before'', ''handler'', ''plugin2-after'']\<rparr>)
   \<and> dispatch test_code ''test.action'' ''target'' None (test_bus (Some 10) [5, 2] []) =
     Some (Inr \<lparr>ok = True, val = Some ''done'', error = None\<rparr>,
           (test_bus (Some 10) [5, 2] [])
             \<lparr>plugins := [5],
              user := [''plugin2-before'', ''handler'', ''plugin2-after'']\<rparr>)"
proof -
  let ?w = "test_bus (Some 10) [4, 2] [] :: (string, string list) world"
  let ?v = "test_bus (Some 10) [5, 2] [] :: (string, string list) world"
  have cmd: "test_cmd = \<lparr>action = ''test.action'', target = ''target'', payload = None\<rparr>"
    by (simp add: test_cmd_def)
  have ps: "plugins ?w = [] @ 4 # [2]" and ps': "plugins ?v = [] @ 5 # [2]"
    by (simp_all add: test_bus_def)
  have p: "plugin_body test_code 4 test_cmd =
      (\<lambda>next w'. next (w'\<lparr>plugins := (\<lambda>qs. qs @ [1]) (plugins w')\<rparr>))"
    by (simp add: test_code_def test_plugin_def use_def)
  have p': "plugin_body test_code 5 test_cmd =
      (\<lambda>next w'. next (w'\<lparr>plugins := remove1 2 (plugins w')\<rparr>))"
    by (simp add: test_code_def test_plugin_def unuse_def unsubscribe_remove1)
  from dispatch_plugin_snapshot [OF ps cmd p]
  have a: "dispatch test_code ''test.action'' ''target'' None ?w =
      after_hooks (hook_body test_code) test_cmd
        (chain (plugin_body test_code) test_cmd []
          (\<lambda>w'. chain (plugin_body test_code) test_cmd [2]
                  (execute (handler_body test_code) ''test.action'' test_cmd
                     (handlers ?w ''test.action''))
                  (w'\<lparr>plugins := (\<lambda>qs. qs @ [1]) (plugins w')\<rparr>)) ?w)"
    by (rule conjunct2 [THEN conjunct1])
  from dispatch_plugin_snapshot [OF ps' cmd p']
  have b: "dispatch test_code ''test.action'' ''target'' None ?v =
      after_hooks (hook_body test_code) test_cmd
        (chain (plugin_body test_code) test_cmd []
          (\<lambda>w'. chain (plugin_body test_code) test_cmd [2]
                  (execute (handler_body test_code) ''test.action'' test_cmd
                     (handlers ?v ''test.action''))
                  (w'\<lparr>plugins := remove1 2 (plugins w')\<rparr>)) ?v)"
    by (rule conjunct2 [THEN conjunct1])
  show ?thesis
    unfolding a b
    by (simp add: chain_Nil chain_Cons after_hooks_def run_hooks_Nil execute_def around_def
        test_bus_def test_code_def test_plugin_def test_handler_def push_def)
qed

text \<open>
  C9. The handler is read from the Map once, when dispatch is entered: for every
  dispatch, whatever the plugins are, the chain is built around the innermost step
  \<open>execute\<close> with the binding that the Map had for the action in the world at entry. In
  whatever world the plugins then call that step, and whatever the Map binds there, the
  step takes the branch of the binding at entry: with no handler at entry it returns the
  "No handler" Result, with handler \<open>h\<close> at entry it calls \<open>h\<close>. In particular a plugin,
  anywhere in the array, that changes the Map in any way (\<open>edit\<close>: a \<open>register\<close>, or the
  closure that \<open>register\<close> returned) and then calls \<open>next()\<close> leaves the plugins after it and
  the innermost step of this dispatch as they were built.
\<close>

theorem dispatch_handler_captured:
  assumes cmd: "cmd = \<lparr>action = act, target = tgt, payload = pl\<rparr>"
  shows "dispatch_chain C act tgt pl w =
           chain (plugin_body C) cmd (plugins w)
             (execute (handler_body C) act cmd (handlers w act)) w
         \<and> (handlers w act = None \<longrightarrow>
               (\<forall>v. execute (handler_body C) act cmd (handlers w act) v =
                      (Inr \<lparr>ok = False, val = None,
                            error = Some (Error (''No handler: '' @ act))\<rparr>, v)))
         \<and> (\<forall>h v x v'. handlers w act = Some h \<and> handler_body C h cmd v = (Inr x, v') \<longrightarrow>
               execute (handler_body C) act cmd (handlers w act) v =
                 (Inr \<lparr>ok = True, val = Some x, error = None\<rparr>, v'))
         \<and> (\<forall>h v e v'. handlers w act = Some h \<and> handler_body C h cmd v = (Inl e, v') \<longrightarrow>
               execute (handler_body C) act cmd (handlers w act) v =
                 (Inr \<lparr>ok = False, val = None, error = Some e\<rparr>, v'))
         \<and> (\<forall>pre p post edit.
               plugins w = pre @ p # post
               \<and> plugin_body C p cmd = (\<lambda>next w'. next (w'\<lparr>handlers := edit (handlers w')\<rparr>))
             \<longrightarrow> dispatch_chain C act tgt pl w =
                   chain (plugin_body C) cmd pre
                     (\<lambda>w'. chain (plugin_body C) cmd post
                             (execute (handler_body C) act cmd (handlers w act))
                             (w'\<lparr>handlers := edit (handlers w')\<rparr>)) w
                 \<and> dispatch C act tgt pl w =
                     after_hooks (hook_body C) cmd
                       (chain (plugin_body C) cmd pre
                         (\<lambda>w'. chain (plugin_body C) cmd post
                                 (execute (handler_body C) act cmd (handlers w act))
                                 (w'\<lparr>handlers := edit (handlers w')\<rparr>)) w)
                 \<and> (pre = [] \<and> post = [] \<longrightarrow>
                       dispatch_chain C act tgt pl w =
                         execute (handler_body C) act cmd (handlers w act)
                           (w\<lparr>handlers := edit (handlers w)\<rparr>)))
         \<and> snd (register a h' w') = w'\<lparr>handlers := (handlers w')(a \<mapsto> h')\<rparr>
         \<and> fst (register a h' w') w' = w'\<lparr>handlers := (handlers w')(a := None)\<rparr>"
proof -
  have zero: "dispatch_chain C act tgt pl w =
      chain (plugin_body C) cmd (plugins w) (execute (handler_body C) act cmd (handlers w act)) w"
    by (rule dispatch_chain_eq [OF cmd])
  have four: "handlers w act = None \<longrightarrow>
      (\<forall>v. execute (handler_body C) act cmd (handlers w act) v =
             (Inr \<lparr>ok = False, val = None, error = Some (Error (''No handler: '' @ act))\<rparr>, v))"
    by (simp add: execute_def)
  have five: "\<forall>h v x v'. handlers w act = Some h \<and> handler_body C h cmd v = (Inr x, v') \<longrightarrow>
      execute (handler_body C) act cmd (handlers w act) v =
        (Inr \<lparr>ok = True, val = Some x, error = None\<rparr>, v')"
    by (simp add: execute_def)
  have six: "\<forall>h v e v'. handlers w act = Some h \<and> handler_body C h cmd v = (Inl e, v') \<longrightarrow>
      execute (handler_body C) act cmd (handlers w act) v =
        (Inr \<lparr>ok = False, val = None, error = Some e\<rparr>, v')"
    by (simp add: execute_def)
  have edits: "\<forall>pre p post edit.
      plugins w = pre @ p # post
      \<and> plugin_body C p cmd = (\<lambda>next w'. next (w'\<lparr>handlers := edit (handlers w')\<rparr>))
    \<longrightarrow> dispatch_chain C act tgt pl w =
          chain (plugin_body C) cmd pre
            (\<lambda>w'. chain (plugin_body C) cmd post
                    (execute (handler_body C) act cmd (handlers w act))
                    (w'\<lparr>handlers := edit (handlers w')\<rparr>)) w
        \<and> dispatch C act tgt pl w =
            after_hooks (hook_body C) cmd
              (chain (plugin_body C) cmd pre
                (\<lambda>w'. chain (plugin_body C) cmd post
                        (execute (handler_body C) act cmd (handlers w act))
                        (w'\<lparr>handlers := edit (handlers w')\<rparr>)) w)
        \<and> (pre = [] \<and> post = [] \<longrightarrow>
              dispatch_chain C act tgt pl w =
                execute (handler_body C) act cmd (handlers w act)
                  (w\<lparr>handlers := edit (handlers w)\<rparr>))"
  proof (intro allI impI, elim conjE)
    fix pre p post and edit :: "(string \<rightharpoonup> fid) \<Rightarrow> (string \<rightharpoonup> fid)"
    assume ps: "plugins w = pre @ p # post"
      and p: "plugin_body C p cmd = (\<lambda>next w'. next (w'\<lparr>handlers := edit (handlers w')\<rparr>))"
    have one: "dispatch_chain C act tgt pl w =
        chain (plugin_body C) cmd pre
          (\<lambda>w'. chain (plugin_body C) cmd post
                  (execute (handler_body C) act cmd (handlers w act))
                  (w'\<lparr>handlers := edit (handlers w')\<rparr>)) w"
      by (simp add: zero ps chain_append chain_Cons p)
    have two: "dispatch C act tgt pl w =
        after_hooks (hook_body C) cmd
          (chain (plugin_body C) cmd pre
            (\<lambda>w'. chain (plugin_body C) cmd post
                    (execute (handler_body C) act cmd (handlers w act))
                    (w'\<lparr>handlers := edit (handlers w')\<rparr>)) w)"
      by (simp add: dispatch_def cmd one)
    have three: "pre = [] \<and> post = [] \<longrightarrow>
        dispatch_chain C act tgt pl w =
          execute (handler_body C) act cmd (handlers w act) (w\<lparr>handlers := edit (handlers w)\<rparr>)"
      by (simp add: one chain_Nil)
    show "dispatch_chain C act tgt pl w =
          chain (plugin_body C) cmd pre
            (\<lambda>w'. chain (plugin_body C) cmd post
                    (execute (handler_body C) act cmd (handlers w act))
                    (w'\<lparr>handlers := edit (handlers w')\<rparr>)) w
        \<and> dispatch C act tgt pl w =
            after_hooks (hook_body C) cmd
              (chain (plugin_body C) cmd pre
                (\<lambda>w'. chain (plugin_body C) cmd post
                        (execute (handler_body C) act cmd (handlers w act))
                        (w'\<lparr>handlers := edit (handlers w')\<rparr>)) w)
        \<and> (pre = [] \<and> post = [] \<longrightarrow>
              dispatch_chain C act tgt pl w =
                execute (handler_body C) act cmd (handlers w act)
                  (w\<lparr>handlers := edit (handlers w)\<rparr>))"
      by (intro conjI) (rule one, rule two, rule three)
  qed
  have seven: "snd (register a h' w') = w'\<lparr>handlers := (handlers w')(a \<mapsto> h')\<rparr>"
    "fst (register a h' w') w' = w'\<lparr>handlers := (handlers w')(a := None)\<rparr>"
    by (simp_all add: register_def unregister_def)
  show ?thesis
    by (intro conjI)
      (rule zero, rule four, rule five, rule six, rule edits, rule seven(1), rule seven(2))
qed

text \<open>Plugin 6, between plugins 1 and 2, removes the handler of the action; plugin 7
  registers one. Both then call \<open>next()\<close>: the first dispatch still calls handler 10, the
  second still finds none.\<close>

theorem dispatch_handler_captured_witness:
  "dispatch test_code ''test.action'' ''target'' None (test_bus (Some 10) [1, 6, 2] []) =
     Some (Inr \<lparr>ok = True, val = Some ''done'', error = None\<rparr>,
           (test_bus None [1, 6, 2] [])
             \<lparr>user := [''plugin1-before'', ''plugin2-before'', ''handler'',
                       ''plugin2-after'', ''plugin1-after'']\<rparr>)
   \<and> dispatch test_code ''test.action'' ''target'' None (test_bus None [7] []) =
     Some (Inr \<lparr>ok = False, val = None, error = Some (Error ''No handler: test.action'')\<rparr>,
           test_bus (Some 10) [7] [])"
proof -
  let ?w = "test_bus (Some 10) [1, 6, 2] [] :: (string, string list) world"
  let ?v = "test_bus None [7] [] :: (string, string list) world"
  have cmd: "test_cmd = \<lparr>action = ''test.action'', target = ''target'', payload = None\<rparr>"
    by (simp add: test_cmd_def)
  have ps: "plugins ?w = [1] @ 6 # [2]" and ps': "plugins ?v = [] @ 7 # []"
    by (simp_all add: test_bus_def)
  have p: "plugin_body test_code 6 test_cmd =
      (\<lambda>next w'. next (w'\<lparr>handlers := (\<lambda>m. m(''test.action'' := None)) (handlers w')\<rparr>))"
    by (simp add: test_code_def test_plugin_def unregister_def test_cmd_def)
  have p': "plugin_body test_code 7 test_cmd =
      (\<lambda>next w'. next (w'\<lparr>handlers := (\<lambda>m. m(''test.action'' \<mapsto> 10)) (handlers w')\<rparr>))"
    by (simp add: test_code_def test_plugin_def register_def test_cmd_def)
  note edits = conjunct2 [THEN conjunct2, THEN conjunct2, THEN conjunct2, THEN conjunct1]
  note a = dispatch_handler_captured [OF cmd, THEN edits, THEN spec, THEN spec, THEN spec,
      THEN spec, THEN mp, OF conjI, OF ps p, THEN conjunct2, THEN conjunct1]
  note b = dispatch_handler_captured [OF cmd, THEN edits, THEN spec, THEN spec, THEN spec,
      THEN spec, THEN mp, OF conjI, OF ps' p', THEN conjunct2, THEN conjunct1]
  show ?thesis
    unfolding a b
    by (simp add: chain_Nil chain_Cons after_hooks_def run_hooks_Nil execute_def around_def
        test_bus_def test_code_def test_plugin_def test_handler_def push_def)
qed

section \<open>The hook loop\<close>

text \<open>
  C5, as amended. After the chain has returned a Result, and provided that in this run no
  hook changes the hook array when it is called, dispatch returns normally, and what it
  leaves is what calling every hook of the array once, in the order of the array, leaves:
  each hook is called with the Command and the Result object as the hooks before it left
  it. A hook that throws has its exception appended to the console with the prefix of line
  74, keeps the other effects it had, and the next hook is called; a hook that returns
  leaves just its effects. The Result that dispatch returns is the object the chain
  produced: its content is the one the chain produced when no hook assigns to it, and a
  throw by itself never changes it.
\<close>

theorem dispatch_hooks_contained:
  assumes ch: "dispatch_chain C act tgt pl w = (Inr r, w1)"
    and cmd: "cmd = \<lparr>action = act, target = tgt, payload = pl\<rparr>"
    and quiet: "hooks_quiet (hook_body C) cmd (afterHooks w1) (r, w1)"
  shows "dispatch C act tgt pl w =
           Some (Inr (fst (call_hooks (hook_body C) cmd (afterHooks w1) (r, w1))),
                 snd (call_hooks (hook_body C) cmd (afterHooks w1) (r, w1)))
         \<and> (\<forall>h x v e x' v'. hook_body C h cmd x v = (Inl e, x', v') \<longrightarrow>
               call_hook (hook_body C) cmd x h v =
                 (x', v'\<lparr>console := console v' @ [(''[vapor-chamber] Hook error:'', e)]\<rparr>))
         \<and> (\<forall>h x v x' v'. hook_body C h cmd x v = (Inr (), x', v') \<longrightarrow>
               call_hook (hook_body C) cmd x h v = (x', v'))
         \<and> (hooks_observe (hook_body C) cmd (afterHooks w1) (r, w1) \<longrightarrow>
               fst (call_hooks (hook_body C) cmd (afterHooks w1) (r, w1)) = r)"
proof (intro conjI)
  show "dispatch C act tgt pl w =
      Some (Inr (fst (call_hooks (hook_body C) cmd (afterHooks w1) (r, w1))),
            snd (call_hooks (hook_body C) cmd (afterHooks w1) (r, w1)))"
    by (rule dispatch_quiet [OF ch cmd quiet])
  show "\<forall>h x v e x' v'. hook_body C h cmd x v = (Inl e, x', v') \<longrightarrow>
      call_hook (hook_body C) cmd x h v =
        (x', v'\<lparr>console := console v' @ [(''[vapor-chamber] Hook error:'', e)]\<rparr>)"
    by (simp add: call_hook_def console_error_def)
  show "\<forall>h x v x' v'. hook_body C h cmd x v = (Inr (), x', v') \<longrightarrow>
      call_hook (hook_body C) cmd x h v = (x', v')"
    by (simp add: call_hook_def)
  show "hooks_observe (hook_body C) cmd (afterHooks w1) (r, w1) \<longrightarrow>
      fst (call_hooks (hook_body C) cmd (afterHooks w1) (r, w1)) = r"
    using hooks_observe_fst [of "hook_body C" cmd "afterHooks w1" "(r, w1)"] by simp
qed

text \<open>The test "should catch hook errors silently", with a second hook after the throwing
  one: the error is on the console, the second hook has run and the Result is the chain's.\<close>

theorem dispatch_hooks_contained_witness:
  "dispatch test_code ''test.action'' ''target'' None (test_bus (Some 10) [] [22, 20]) =
     Some (Inr \<lparr>ok = True, val = Some ''done'', error = None\<rparr>,
           (test_bus (Some 10) [] [22, 20])
             \<lparr>console := [(''[vapor-chamber] Hook error:'', Error ''Hook error'')],
              user := [''handler'', ''hook'']\<rparr>)"
proof -
  let ?w = "test_bus (Some 10) [] [22, 20] :: (string, string list) world"
  let ?r = "\<lparr>ok = True, val = Some ''done'', error = None\<rparr> :: string command_result"
  let ?w1 = "push ''handler'' ?w"
  let ?X = "call_hooks (hook_body test_code) test_cmd (afterHooks ?w1) (?r, ?w1)"
  have cmd: "test_cmd = \<lparr>action = ''test.action'', target = ''target'', payload = None\<rparr>"
    by (simp add: test_cmd_def)
  have ch: "dispatch_chain test_code ''test.action'' ''target'' None ?w = (Inr ?r, ?w1)"
    by (simp add: dispatch_chain_eq [OF cmd] chain_Nil execute_def test_bus_def test_code_def
        test_handler_def)
  have quiet: "hooks_quiet (hook_body test_code) test_cmd (afterHooks ?w1) (?r, ?w1)"
    by (simp add: call_hook_def console_error_def test_code_def test_hook_def push_def
        test_bus_def)
  have obs: "hooks_observe (hook_body test_code) test_cmd (afterHooks ?w1) (?r, ?w1)"
    by (simp add: call_hook_def console_error_def test_code_def test_hook_def push_def
        test_bus_def)
  note inst = dispatch_hooks_contained [OF ch cmd quiet]
  from inst have a: "dispatch test_code ''test.action'' ''target'' None ?w =
      Some (Inr (fst ?X), snd ?X)"
    by (rule conjunct1)
  from inst [THEN conjunct2, THEN conjunct2, THEN conjunct2, THEN mp, OF obs]
  have b: "fst ?X = ?r" .
  have c: "snd ?X = ?w\<lparr>console := [(''[vapor-chamber] Hook error:'', Error ''Hook error'')],
      user := [''handler'', ''hook'']\<rparr>"
    by (simp add: call_hooks_def call_hook_def console_error_def test_code_def test_hook_def
        push_def test_bus_def)
  show ?thesis
    unfolding a b c ..
qed

text \<open>
  C5 as stated does not hold: the Result that dispatch returns is not always the one the
  chain produced, unchanged. The chain produces \<open>{ok: true, value: done}\<close>; hook 25 assigns
  \<open>result.ok = false\<close> to the object it is handed and throws. The throw is contained and
  hook 20 still runs, but dispatch returns \<open>{ok: false, value: done}\<close>.
\<close>

theorem dispatch_hook_assigns_counterexample:
  "dispatch_chain test_code ''test.action'' ''target'' None (test_bus (Some 10) [] [25, 20]) =
     (Inr \<lparr>ok = True, val = Some ''done'', error = None\<rparr>,
      (test_bus (Some 10) [] [25, 20])\<lparr>user := [''handler'']\<rparr>)
   \<and> dispatch test_code ''test.action'' ''target'' None (test_bus (Some 10) [] [25, 20]) =
     Some (Inr \<lparr>ok = False, val = Some ''done'', error = None\<rparr>,
           (test_bus (Some 10) [] [25, 20])
             \<lparr>console := [(''[vapor-chamber] Hook error:'', Error ''Hook error'')],
              user := [''handler'', ''hook'']\<rparr>)"
  by (simp add: dispatch_def dispatch_chain_def chain_Nil execute_def after_hooks_def
      run_hooks.simps call_hook_def console_error_def test_bus_def test_code_def
      test_handler_def test_hook_def push_def Let_def)

text \<open>
  What the amended C5 and C10 leave out. Hooks 23 and 20 are registered, in this order;
  hook 23 unsubscribes itself and throws. The splice moves hook 20 to index 0 while the
  iterator goes on to index 1, so the loop ends: hook 20, registered all along, is not
  called in this dispatch. In the same way hook 21, registered by plugin 8 during the
  chain behind hook 24 that unsubscribes itself, is not called. An array that is edited
  while it is iterated loses an entry: this is a defect of the loop, not a rule of the bus.
\<close>

lemma hook_loop_skips_after_splice:
  "dispatch test_code ''test.action'' ''target'' None (test_bus (Some 10) [] [23, 20]) =
     Some (Inr \<lparr>ok = True, val = Some ''done'', error = None\<rparr>,
           (test_bus (Some 10) [] [23, 20])
             \<lparr>afterHooks := [20],
              console := [(''[vapor-chamber] Hook error:'', Error ''once'')],
              user := [''handler'']\<rparr>)
   \<and> dispatch test_code ''test.action'' ''target'' None (test_bus (Some 10) [8] [24]) =
     Some (Inr \<lparr>ok = True, val = Some ''done'', error = None\<rparr>,
           (test_bus (Some 10) [8] [24])\<lparr>afterHooks := [21], user := [''handler'']\<rparr>)"
  by (simp add: dispatch_def dispatch_chain_def chain_Nil chain_Cons execute_def after_hooks_def
      run_hooks.simps call_hook_def console_error_def onAfter_def offAfter_def unsubscribe_def
      splice1_def test_bus_def test_code_def test_handler_def test_hook_def test_plugin_def
      push_def Let_def)

text \<open>
  C10, as amended. The hook loop reads the hook array as it is when the chain has
  returned (world \<open>w1\<close>), not as it was when dispatch was entered, whatever the plugins and
  the handler did to it in between. Provided that in this run no hook changes the array
  when it is called, the hooks called are the entries of that array, each once, in order.
  So a hook \<open>h\<close> that has an entry in the array then, as one that \<open>onAfter\<close> appended during
  the chain or in the handler has, is called in this same dispatch, after the entries
  before it; and a hook that has no entry left in the array then is not called: the
  dispatch is the same whatever its body is. The closure that \<open>onAfter\<close> returns removes the
  first entry of its hook only.
\<close>

theorem dispatch_hooks_live:
  assumes ch: "dispatch_chain C act tgt pl w = (Inr r, w1)"
    and cmd: "cmd = \<lparr>action = act, target = tgt, payload = pl\<rparr>"
    and quiet: "hooks_quiet (hook_body C) cmd (afterHooks w1) (r, w1)"
  shows "dispatch C act tgt pl w =
           Some (Inr (fst (call_hooks (hook_body C) cmd (afterHooks w1) (r, w1))),
                 snd (call_hooks (hook_body C) cmd (afterHooks w1) (r, w1)))
         \<and> (\<forall>xs ys. afterHooks w1 = xs @ h # ys \<longrightarrow>
               call_hooks (hook_body C) cmd (afterHooks w1) (r, w1) =
                 call_hooks (hook_body C) cmd ys
                   (call_hook (hook_body C) cmd
                      (fst (call_hooks (hook_body C) cmd xs (r, w1))) h
                      (snd (call_hooks (hook_body C) cmd xs (r, w1)))))
         \<and> (h \<notin> set (afterHooks w1) \<longrightarrow>
               (\<forall>k. dispatch (C\<lparr>hook_body := (hook_body C)(h := k)\<rparr>) act tgt pl w =
                     dispatch C act tgt pl w))
         \<and> afterHooks (snd (onAfter h v)) = afterHooks v @ [h]
         \<and> afterHooks (fst (onAfter h v) v') = remove1 h (afterHooks v')"
proof (intro conjI)
  show one: "dispatch C act tgt pl w =
      Some (Inr (fst (call_hooks (hook_body C) cmd (afterHooks w1) (r, w1))),
            snd (call_hooks (hook_body C) cmd (afterHooks w1) (r, w1)))"
    by (rule dispatch_quiet [OF ch cmd quiet])
  show "\<forall>xs ys. afterHooks w1 = xs @ h # ys \<longrightarrow>
      call_hooks (hook_body C) cmd (afterHooks w1) (r, w1) =
        call_hooks (hook_body C) cmd ys
          (call_hook (hook_body C) cmd
             (fst (call_hooks (hook_body C) cmd xs (r, w1))) h
             (snd (call_hooks (hook_body C) cmd xs (r, w1))))"
    by (simp add: call_hooks_append call_hooks_Cons)
  show "h \<notin> set (afterHooks w1) \<longrightarrow>
      (\<forall>k. dispatch (C\<lparr>hook_body := (hook_body C)(h := k)\<rparr>) act tgt pl w =
            dispatch C act tgt pl w)"
  proof (intro impI allI)
    fix k
    assume out: "h \<notin> set (afterHooks w1)"
    let ?C = "C\<lparr>hook_body := (hook_body C)(h := k)\<rparr>"
    have same: "\<And>g. g \<in> set (afterHooks w1) \<Longrightarrow> hook_body ?C g = hook_body C g"
      using out by auto
    have ch': "dispatch_chain ?C act tgt pl w = (Inr r, w1)"
      using ch by (simp add: dispatch_chain_def)
    have "hooks_quiet (hook_body ?C) cmd (afterHooks w1) (r, w1) =
        hooks_quiet (hook_body C) cmd (afterHooks w1) (r, w1)"
      by (rule hooks_quiet_cong) (rule same)
    with quiet have quiet': "hooks_quiet (hook_body ?C) cmd (afterHooks w1) (r, w1)" by simp
    have calls: "call_hooks (hook_body ?C) cmd (afterHooks w1) (r, w1) =
        call_hooks (hook_body C) cmd (afterHooks w1) (r, w1)"
      by (rule call_hooks_cong) (rule same)
    show "dispatch ?C act tgt pl w = dispatch C act tgt pl w"
      unfolding dispatch_quiet [OF ch' cmd quiet'] one calls ..
  qed
  show "afterHooks (snd (onAfter h v)) = afterHooks v @ [h]"
    by (simp add: onAfter_def)
  show "afterHooks (fst (onAfter h v) v') = remove1 h (afterHooks v')"
    by (simp add: onAfter_def offAfter_def unsubscribe_remove1)
qed

text \<open>Plugin 8 registers hook 21 during the chain and handler 12 registers it in the
  handler: hook 21 runs in that dispatch. Plugin 9 unsubscribes hook 20, which has one
  entry: hook 20 does not run, and its body does not matter.\<close>

theorem dispatch_hooks_live_witness:
  "dispatch test_code ''test.action'' ''target'' None (test_bus (Some 10) [8] [20]) =
     Some (Inr \<lparr>ok = True, val = Some ''done'', error = None\<rparr>,
           (test_bus (Some 10) [8] [20])
             \<lparr>afterHooks := [20, 21], user := [''handler'', ''hook'', ''hook2'']\<rparr>)
   \<and> dispatch test_code ''test.action'' ''target'' None (test_bus (Some 12) [] [20]) =
     Some (Inr \<lparr>ok = True, val = Some ''done'', error = None\<rparr>,
           (test_bus (Some 12) [] [20])
             \<lparr>afterHooks := [20, 21], user := [''hook'', ''hook2'']\<rparr>)
   \<and> dispatch test_code ''test.action'' ''target'' None (test_bus (Some 10) [9] [20, 21]) =
     Some (Inr \<lparr>ok = True, val = Some ''done'', error = None\<rparr>,
           (test_bus (Some 10) [9] [20, 21])
             \<lparr>afterHooks := [21], user := [''handler'', ''hook2'']\<rparr>)
   \<and> dispatch (test_code\<lparr>hook_body := (hook_body test_code)
                   (20 := \<lambda>cmd r w. (Inr (), r, push ''other'' w))\<rparr>)
       ''test.action'' ''target'' None (test_bus (Some 10) [9] [20, 21]) =
     dispatch test_code ''test.action'' ''target'' None (test_bus (Some 10) [9] [20, 21])"
proof -
  let ?r = "\<lparr>ok = True, val = Some ''done'', error = None\<rparr> :: string command_result"
  let ?a = "test_bus (Some 10) [8] [20] :: (string, string list) world"
  let ?a1 = "?a\<lparr>afterHooks := [20, 21], user := [''handler'']\<rparr>"
  let ?b = "test_bus (Some 12) [] [20] :: (string, string list) world"
  let ?b1 = "?b\<lparr>afterHooks := [20, 21]\<rparr>"
  let ?c = "test_bus (Some 10) [9] [20, 21] :: (string, string list) world"
  let ?c1 = "?c\<lparr>afterHooks := [21], user := [''handler'']\<rparr>"
  have cmd: "test_cmd = \<lparr>action = ''test.action'', target = ''target'', payload = None\<rparr>"
    by (simp add: test_cmd_def)
  have cha: "dispatch_chain test_code ''test.action'' ''target'' None ?a = (Inr ?r, ?a1)"
    by (simp add: dispatch_chain_eq [OF cmd] chain_Nil chain_Cons execute_def test_bus_def
        test_code_def test_plugin_def test_handler_def onAfter_def push_def)
  have chb: "dispatch_chain test_code ''test.action'' ''target'' None ?b = (Inr ?r, ?b1)"
    by (simp add: dispatch_chain_eq [OF cmd] chain_Nil chain_Cons execute_def test_bus_def
        test_code_def test_plugin_def test_handler_def onAfter_def push_def)
  have chc: "dispatch_chain test_code ''test.action'' ''target'' None ?c = (Inr ?r, ?c1)"
    by (simp add: dispatch_chain_eq [OF cmd] chain_Nil chain_Cons execute_def test_bus_def
        test_code_def test_plugin_def test_handler_def offAfter_def unsubscribe_def
        splice1_def push_def Let_def)
  have qa: "hooks_quiet (hook_body test_code) test_cmd (afterHooks ?a1) (?r, ?a1)"
    and qb: "hooks_quiet (hook_body test_code) test_cmd (afterHooks ?b1) (?r, ?b1)"
    and qc: "hooks_quiet (hook_body test_code) test_cmd (afterHooks ?c1) (?r, ?c1)"
    by (simp_all add: call_hook_def test_code_def test_hook_def push_def test_bus_def)
  have out: "20 \<notin> set (afterHooks ?c1)" by simp
  note a = dispatch_hooks_live [OF cha cmd qa, THEN conjunct1]
  note b = dispatch_hooks_live [OF chb cmd qb, THEN conjunct1]
  note c = dispatch_hooks_live [OF chc cmd qc, THEN conjunct1]
  note d = dispatch_hooks_live [OF chc cmd qc, where h = 20, THEN conjunct2, THEN conjunct2,
      THEN conjunct1, THEN mp, OF out, THEN spec]
  show ?thesis
    unfolding d unfolding a b c
    by (simp add: call_hooks_def call_hook_def test_code_def test_hook_def push_def test_bus_def)
qed

text \<open>
  C10 as stated does not hold. A hook unsubscribed during the chain can still be invoked:
  hook 20 is registered twice, plugin 9 calls an unsubscribe closure of hook 20 during the
  chain, which removes one entry; the array is \<open>[20]\<close> when the chain returns and hook 20
  is called in this dispatch. And a hook registered during the chain need not be invoked:
  plugin 8 registers hook 21 and then handler 13 unsubscribes it; the array is empty when
  the chain returns and hook 21 is not called.
\<close>

theorem dispatch_hook_unsubscribed_counterexample:
  "afterHooks (snd (dispatch_chain test_code ''test.action'' ''target'' None
      (test_bus (Some 10) [9] [20, 20]))) = [20]
   \<and> dispatch test_code ''test.action'' ''target'' None (test_bus (Some 10) [9] [20, 20]) =
     Some (Inr \<lparr>ok = True, val = Some ''done'', error = None\<rparr>,
           (test_bus (Some 10) [9] [20, 20])
             \<lparr>afterHooks := [20], user := [''handler'', ''hook'']\<rparr>)
   \<and> dispatch test_code ''test.action'' ''target'' None (test_bus (Some 13) [8] []) =
     Some (Inr \<lparr>ok = True, val = Some ''done'', error = None\<rparr>, test_bus (Some 13) [8] [])"
  by (simp add: dispatch_def dispatch_chain_def chain_Nil chain_Cons execute_def after_hooks_def
      run_hooks.simps call_hook_def onAfter_def offAfter_def unsubscribe_def splice1_def
      test_bus_def test_code_def test_handler_def test_hook_def test_plugin_def
      push_def Let_def)

end
